theory Spec2Isabelle
  imports Complex_Main "HOL-Library.AList"
begin

section \<open>Shared data\<close>

text \<open>
  Every log line carries an ISO-8601 timestamp with a fractional second, written by the
  node with a fixed number of digits. The scripts compare these timestamps in two ways:
  as strings (\<^verbatim>\<open>sort(key=lambda x: x[0])\<close>, dictionary keys) and as \<^verbatim>\<open>datetime\<close>
  values (differences, \<^verbatim>\<open><\<close>, \<^verbatim>\<open>!=\<close>). For fixed-width timestamps both orders and
  both equalities coincide, so a timestamp is modelled as the number of microseconds
  since the epoch. A \<^verbatim>\<open>timedelta\<close> is a difference of two timestamps, and
  \<^verbatim>\<open>total_seconds()\<close> divides it by one million; the quotient is kept exact here
  (a rational), where Python rounds it to the nearest double.
\<close>

type_synonym timestamp = int

definition total_seconds :: "int \<Rightarrow> rat" where
  "total_seconds delta = of_int delta / 1000000"

datatype py_error = IndexError | ZeroDivisionError

definition py_truediv :: "rat \<Rightarrow> rat \<Rightarrow> py_error + rat" where
  "py_truediv a b = (if b = 0 then Inl ZeroDivisionError else Inr (a / b))"

definition py_first :: "'a list \<Rightarrow> py_error + 'a" where
  "py_first xs = (case xs of [] \<Rightarrow> Inl IndexError | x # _ \<Rightarrow> Inr x)"

definition py_last :: "'a list \<Rightarrow> py_error + 'a" where
  "py_last xs = (if xs = [] then Inl IndexError else Inr (last xs))"

section \<open>proof-metrics.py\<close>

subsection \<open>calculate\_block\_statistics\<close>

record block_statistics =
  duration_ms :: rat
  avg_proofs_processed :: rat

text \<open>
  \<^verbatim>\<open>timestamps[-1]\<close> and \<^verbatim>\<open>timestamps[0]\<close> are read only after the guard has
  established at least two timestamps; \<^verbatim>\<open>proofs_processed[-1]\<close> and
  \<^verbatim>\<open>proofs_processed[0]\<close> are read without a guard of their own.
\<close>

definition calculate_block_statistics ::
  "timestamp list \<Rightarrow> int list \<Rightarrow> py_error + block_statistics" where
  "calculate_block_statistics timestamps proofs_processed =
     (if timestamps = [] \<or> length timestamps < 2
      then Inr \<lparr>duration_ms = 0, avg_proofs_processed = 0\<rparr>
      else
        let duration_seconds = total_seconds (last timestamps - hd timestamps);
            duration_ms = duration_seconds * 1000
        in if duration_seconds > 0
           then (case py_last proofs_processed of
                   Inl e \<Rightarrow> Inl e
                 | Inr pp_last \<Rightarrow>
                     (case py_first proofs_processed of
                        Inl e \<Rightarrow> Inl e
                      | Inr pp_first \<Rightarrow>
                          (case py_truediv (of_int (pp_last - pp_first)) duration_seconds of
                             Inl e \<Rightarrow> Inl e
                           | Inr proofs_rate \<Rightarrow>
                               Inr \<lparr>duration_ms = duration_ms,
                                    avg_proofs_processed = proofs_rate\<rparr>)))
           else Inr \<lparr>duration_ms = duration_ms, avg_proofs_processed = 0\<rparr>)"

subsection \<open>calculate\_block\_boundaries\<close>

text \<open>
  A block window is the tuple \<^verbatim>\<open>(index, start, end)\<close> appended to
  \<^verbatim>\<open>block_boundaries\<close>; \<^verbatim>\<open>isoformat()\<close> is injective, so the two ends stay
  timestamps.
\<close>

type_synonym block_window = "nat \<times> timestamp \<times> timestamp"

text \<open>
  The test of the loop body,
  \<^verbatim>\<open>proofs_processed[i] < proofs_processed[i-1] * 0.5 or proofs_processed[i] == 0\<close>.
\<close>

definition is_reset :: "int \<Rightarrow> int \<Rightarrow> bool" where
  "is_reset prev cur \<longleftrightarrow> (of_int cur :: rat) < of_int prev * (5 / 10) \<or> cur = 0"

text \<open>
  The loop \<^verbatim>\<open>for i in range(1, len(timestamps))\<close> over the state
  \<^verbatim>\<open>(block_boundaries, current_block_start)\<close>. The index always lies inside
  \<^verbatim>\<open>timestamps\<close>; reading \<^verbatim>\<open>proofs_processed[i]\<close> raises when that list is
  shorter.
\<close>

fun boundaries_loop ::
  "timestamp list \<Rightarrow> int list \<Rightarrow> nat list \<Rightarrow> block_window list \<times> timestamp
     \<Rightarrow> py_error + (block_window list \<times> timestamp)" where
  "boundaries_loop timestamps proofs_processed [] st = Inr st"
| "boundaries_loop timestamps proofs_processed (i # is) (block_boundaries, current_block_start) =
     (if length proofs_processed \<le> i then Inl IndexError
      else if is_reset (proofs_processed ! (i - 1)) (proofs_processed ! i)
      then boundaries_loop timestamps proofs_processed is
             (block_boundaries @
                [(length block_boundaries, current_block_start, timestamps ! (i - 1))],
              timestamps ! i)
      else boundaries_loop timestamps proofs_processed is
             (block_boundaries, current_block_start))"

text \<open>
  The first component of the pair the method returns; the second one, the metadata
  dictionary, does not depend on the windows. \<^verbatim>\<open>parse_log\<close> appends to its four
  lists together, so both arguments have one length whenever the method runs.
\<close>

definition calculate_block_boundaries ::
  "timestamp list \<Rightarrow> int list \<Rightarrow> py_error + block_window list" where
  "calculate_block_boundaries timestamps proofs_processed =
     (if timestamps = [] then Inr []
      else
        (case boundaries_loop timestamps proofs_processed [1..<length timestamps]
                ([], timestamps ! 0) of
           Inl e \<Rightarrow> Inl e
         | Inr (block_boundaries, current_block_start) \<Rightarrow>
             if current_block_start \<noteq> last timestamps
             then Inr (block_boundaries @
                         [(length block_boundaries, current_block_start, last timestamps)])
             else Inr block_boundaries))"

text \<open>
  The reading of the boundary rule used to state what the loop computes: the indices
  \<open>i \<ge> 1\<close> below \<open>n\<close> at which the counter is below half of the previous sample's
  value, or is zero; the windows closed by a list of such indices (window \<open>k\<close> starts at
  the previous index of the list, or at sample 0, and ends at the sample before index
  \<open>k\<close> of the list); and the start of the window left open after them.
\<close>

definition reset_indices :: "int list \<Rightarrow> nat \<Rightarrow> nat list" where
  "reset_indices proofs_processed n =
     [i \<leftarrow> [1..<n]. 2 * proofs_processed ! i < proofs_processed ! (i - 1)
                      \<or> proofs_processed ! i = 0]"

definition closed_windows :: "timestamp list \<Rightarrow> nat list \<Rightarrow> block_window list" where
  "closed_windows timestamps rs =
     map (\<lambda>k. (k, timestamps ! (if k = 0 then 0 else rs ! (k - 1)), timestamps ! (rs ! k - 1)))
       [0..<length rs]"

definition open_start :: "timestamp list \<Rightarrow> nat list \<Rightarrow> timestamp" where
  "open_start timestamps rs = timestamps ! (if rs = [] then 0 else last rs)"

section \<open>block-metrics.py\<close>

subsection \<open>Events of a log file\<close>

text \<open>
  \<^verbatim>\<open>extract_block_metadata\<close> runs \<^verbatim>\<open>re.finditer\<close> three times over the content of
  the file, once for each pattern. A file is modelled as the list of its events in file
  order, each event holding the groups of the pattern it matches; a pass of
  \<^verbatim>\<open>finditer\<close> yields the events of one kind, in file order. Durations and hashes
  are the matched text, block numbers are the digits matched by \<^verbatim>\<open>(\d+)\<close>.
\<close>

datatype event =
    BlockAdded timestamp string string string
  | StateRootCalculated timestamp string string string
  | ProofsProcessed timestamp string
  | Unmatched

text \<open>
  The dictionary built for one \<^verbatim>\<open>Block added\<close> match. The keys
  \<^verbatim>\<open>'root_elapsed'\<close> and \<^verbatim>\<open>'total_time'\<close> are absent until a later pass sets them.
\<close>

record entry =
  timestamp :: timestamp
  block_hash :: string
  elapsed_time :: string
  block_number :: string
  root_elapsed :: "string option"
  total_time :: "string option"

text \<open>
  A Python dictionary keeps its keys in insertion order and assigning to an existing key
  keeps the key's place: an association list under \<^const>\<open>AList.update\<close>.
\<close>

type_synonym blocks_data = "(string \<times> entry list) list"

subsection \<open>extract\_block\_metadata\<close>

text \<open>First pass: one entry per \<^verbatim>\<open>Block added\<close> match, appended to the list of its block number.\<close>

fun collect_block :: "event \<Rightarrow> blocks_data \<Rightarrow> blocks_data" where
  "collect_block (BlockAdded ts number hash elapsed) blocks =
     (let blocks' = (if map_of blocks number = None then AList.update number [] blocks else blocks)
      in AList.update number
           (the (map_of blocks' number) @
              [\<lparr>timestamp = ts, block_hash = hash, elapsed_time = elapsed, block_number = number,
                root_elapsed = None, total_time = None\<rparr>])
           blocks')"
| "collect_block _ blocks = blocks"

definition collect_blocks :: "event list \<Rightarrow> blocks_data" where
  "collect_blocks content = fold collect_block content []"

text \<open>
  Second pass, the search for the closest entry: \<^verbatim>\<open>closest_entry\<close> is kept as the index
  of the entry in its list, together with \<^verbatim>\<open>min_diff\<close>; \<open>None\<close> stands for the starting
  state \<^verbatim>\<open>(None, float('inf'))\<close>.
\<close>

fun closest_loop ::
  "timestamp \<Rightarrow> (nat \<times> entry) list \<Rightarrow> (nat \<times> rat) option \<Rightarrow> (nat \<times> rat) option" where
  "closest_loop current_time [] best = best"
| "closest_loop current_time ((j, e) # rest) best =
     (let diff = \<bar>total_seconds (current_time - timestamp e)\<bar>
      in if (case best of None \<Rightarrow> True | Some (_, min_diff) \<Rightarrow> diff < min_diff)
         then closest_loop current_time rest (Some (j, diff))
         else closest_loop current_time rest best)"

definition closest_entry :: "timestamp \<Rightarrow> entry list \<Rightarrow> nat option" where
  "closest_entry current_time entries =
     map_option fst (closest_loop current_time (zip [0..<length entries] entries) None)"

fun add_root_elapsed :: "event \<Rightarrow> blocks_data \<Rightarrow> blocks_data" where
  "add_root_elapsed (StateRootCalculated ts elapsed number hash) blocks =
     (case map_of blocks number of
        None \<Rightarrow> blocks
      | Some entries \<Rightarrow>
          (case closest_entry ts entries of
             None \<Rightarrow> blocks
           | Some j \<Rightarrow>
               AList.update number (entries[j := (entries ! j)\<lparr>root_elapsed := Some elapsed\<rparr>])
                 blocks))"
| "add_root_elapsed _ blocks = blocks"

definition add_root_times :: "event list \<Rightarrow> blocks_data \<Rightarrow> blocks_data" where
  "add_root_times content blocks = fold add_root_elapsed content blocks"

text \<open>Third pass: the proof times, sorted by timestamp (Python's sort is stable).\<close>

fun proof_time_of :: "event \<Rightarrow> (timestamp \<times> string) option" where
  "proof_time_of (ProofsProcessed ts time_str) = Some (ts, time_str)"
| "proof_time_of _ = None"

definition proof_times :: "event list \<Rightarrow> (timestamp \<times> string) list" where
  "proof_times content = sort_key fst (List.map_filter proof_time_of content)"

text \<open>The inner loop with its \<^verbatim>\<open>break\<close>: the first proof time of the list inside the window.\<close>

fun attach_total_time :: "entry \<Rightarrow> (timestamp \<times> string) list \<Rightarrow> entry" where
  "attach_total_time e [] = e"
| "attach_total_time e ((proof_timestamp, time_str) # rest) =
     (let time_diff = total_seconds (proof_timestamp - timestamp e)
      in if 0 \<le> time_diff \<and> time_diff \<le> 10
         then e\<lparr>total_time := Some time_str\<rparr>
         else attach_total_time e rest)"

definition add_proof_times :: "(timestamp \<times> string) list \<Rightarrow> blocks_data \<Rightarrow> blocks_data" where
  "add_proof_times proofs blocks =
     map (\<lambda>(number, entries). (number, map (\<lambda>e. attach_total_time e proofs) entries)) blocks"

text \<open>The conversion to the result, keyed by the timestamp of each entry.\<close>

definition by_timestamp :: "blocks_data \<Rightarrow> (timestamp \<times> entry) list" where
  "by_timestamp blocks =
     fold (\<lambda>(number, entries) block_metadata.
             fold (\<lambda>e. AList.update (timestamp e) e) entries block_metadata)
       blocks []"

definition extract_block_metadata :: "event list \<Rightarrow> (timestamp \<times> entry) list" where
  "extract_block_metadata content =
     by_timestamp
       (add_proof_times (proof_times content)
          (add_root_times content (collect_blocks content)))"

subsection \<open>Invariants of the passes\<close>

text \<open>
  Used in the proofs only: what holds of every entry of \<^verbatim>\<open>blocks_data\<close> before the
  third pass (it stems from a \<^verbatim>\<open>Block added\<close> event of the file, sits under its own
  block number and has no \<^verbatim>\<open>'total_time'\<close> yet), and a property holding of all entries.
\<close>

definition fresh_entry :: "event set \<Rightarrow> string \<Rightarrow> entry \<Rightarrow> bool" where
  "fresh_entry S number e \<longleftrightarrow>
     total_time e = None \<and> block_number e = number \<and>
     BlockAdded (timestamp e) number (block_hash e) (elapsed_time e) \<in> S"

definition all_entries :: "(string \<Rightarrow> entry \<Rightarrow> bool) \<Rightarrow> blocks_data \<Rightarrow> bool" where
  "all_entries P blocks \<longleftrightarrow> (\<forall>(number, entries) \<in> set blocks. \<forall>e \<in> set entries. P number e)"

(*DEFS-END*)

section \<open>Summary statistics of a window\<close>

lemma calculate_block_statistics_no_zero_division:
  "calculate_block_statistics timestamps proofs_processed \<noteq> Inl ZeroDivisionError"
  by (auto simp: calculate_block_statistics_def py_truediv_def py_last_def py_first_def Let_def
      split: sum.splits list.splits)

text \<open>
  C9. For the samples of a window (one counter value per timestamp), the statistics
  report the rate (last counter minus first counter) divided by the duration in seconds
  when the duration is strictly positive, and the rate zero otherwise, which includes
  every window of fewer than two samples; the run never ends in a division by zero.
\<close>

theorem calculate_block_statistics_rate:
  assumes "length proofs_processed = length timestamps"
  shows "calculate_block_statistics timestamps proofs_processed =
           (let duration_seconds =
                  (if length timestamps < 2 then 0
                   else total_seconds (last timestamps - hd timestamps))
            in Inr \<lparr>duration_ms = duration_seconds * 1000,
                    avg_proofs_processed =
                      (if 0 < duration_seconds
                       then of_int (last proofs_processed - hd proofs_processed) / duration_seconds
                       else 0)\<rparr>)
         \<and> calculate_block_statistics timestamps proofs_processed \<noteq> Inl ZeroDivisionError"
proof (cases "length timestamps < 2")
  case True
  then show ?thesis
    by (auto simp: calculate_block_statistics_def)
next
  case False
  with assms have ne: "proofs_processed \<noteq> []" "timestamps \<noteq> []"
    by auto
  then obtain p ps where pp: "proofs_processed = p # ps"
    by (cases proofs_processed) auto
  show ?thesis
    using False ne
    by (auto simp: calculate_block_statistics_def py_truediv_def py_last_def py_first_def
        Let_def pp)
qed

theorem calculate_block_statistics_rate_witness:
  "length [3, 11 :: int] = length [0, 2000000 :: int]
   \<and> calculate_block_statistics [0, 2000000] [3, 11]
       = Inr \<lparr>duration_ms = 2000, avg_proofs_processed = 4\<rparr>
   \<and> calculate_block_statistics [7] [5]
       = Inr \<lparr>duration_ms = 0, avg_proofs_processed = 0\<rparr>"
  using calculate_block_statistics_rate [of "[3, 11]" "[0, 2000000]"]
    calculate_block_statistics_rate [of "[5]" "[7]"]
  by (simp add: total_seconds_def Let_def)

section \<open>Block windows from counter resets\<close>

lemma is_reset_iff: "is_reset prev cur \<longleftrightarrow> 2 * cur < prev \<or> cur = 0"
  by (auto simp: is_reset_def)

lemma boundaries_loop_append:
  "boundaries_loop ts pp (is @ js) st =
     (case boundaries_loop ts pp is st of Inl e \<Rightarrow> Inl e | Inr st' \<Rightarrow> boundaries_loop ts pp js st')"
  by (induction ts pp "is" st rule: boundaries_loop.induct) auto

lemma closed_windows_snoc:
  "closed_windows ts (rs @ [r]) =
     closed_windows ts rs @ [(length rs, open_start ts rs, ts ! (r - 1))]"
  by (auto simp: closed_windows_def open_start_def nth_append last_conv_nth)

lemma length_closed_windows [simp]: "length (closed_windows ts rs) = length rs"
  by (simp add: closed_windows_def)

lemma reset_indices_Suc:
  "1 \<le> m \<Longrightarrow> reset_indices pp (Suc m) =
     reset_indices pp m @ (if 2 * pp ! m < pp ! (m - 1) \<or> pp ! m = 0 then [m] else [])"
  by (simp add: reset_indices_def)

lemma boundaries_loop_upto:
  "m \<le> length pp \<Longrightarrow>
   boundaries_loop ts pp [1..<m] ([], ts ! 0) =
     Inr (closed_windows ts (reset_indices pp m), open_start ts (reset_indices pp m))"
proof (induction m)
  case 0
  then show ?case by (simp add: closed_windows_def open_start_def reset_indices_def)
next
  case (Suc m)
  show ?case
  proof (cases "m = 0")
    case True
    then show ?thesis by (simp add: closed_windows_def open_start_def reset_indices_def)
  next
    case False
    then have m: "1 \<le> m" by simp
    then have upt: "[1..<Suc m] = [1..<m] @ [m]" by simp
    from Suc.prems have "m \<le> length pp" "m < length pp" by simp_all
    with Suc.IH show ?thesis
      unfolding upt boundaries_loop_append reset_indices_Suc [OF m]
      by (simp add: is_reset_iff closed_windows_snoc open_start_def)
  qed
qed



lemma boundaries_loop_full:
  assumes "length proofs_processed = length timestamps"
  shows "boundaries_loop timestamps proofs_processed [1..<length timestamps] ([], timestamps ! 0) =
           Inr (closed_windows timestamps (reset_indices proofs_processed (length timestamps)),
                open_start timestamps (reset_indices proofs_processed (length timestamps)))"
  using assms boundaries_loop_upto [of "length timestamps" proofs_processed timestamps] by simp

lemma closed_windows_ends:
  "map (\<lambda>(k, s, e). e) (closed_windows ts rs) = map (\<lambda>i. ts ! (i - 1)) rs"
  by (rule nth_equalityI) (simp_all add: closed_windows_def)

lemma closed_windows_indices:
  "map (\<lambda>(k, s, e). k) (closed_windows ts rs) = [0..<length rs]"
  by (rule nth_equalityI) (simp_all add: closed_windows_def)

text \<open>
  C5. The loop closes a window at sample \<open>i \<ge> 1\<close> exactly when the counter at \<open>i\<close> is
  below half of the counter at \<open>i - 1\<close> or is zero: the windows it has closed are numbered
  from 0, one for each such index in ascending order, each ending at the sample just
  before the index, and the window left open starts at the last such index. For the
  counters 5, 8, 10, 2, 6, 9 at evenly spaced timestamps the only boundary lies between
  the samples 2 and 3, and two windows are produced.
\<close>

theorem boundary_detection:
  assumes "length proofs_processed = length timestamps" and "0 < d"
  defines "rs \<equiv> [i \<leftarrow> [1..<length timestamps].
                    2 * proofs_processed ! i < proofs_processed ! (i - 1)
                    \<or> proofs_processed ! i = 0]"
  shows "(\<exists>bs start.
            boundaries_loop timestamps proofs_processed [1..<length timestamps]
              ([], timestamps ! 0) = Inr (bs, start)
            \<and> map (\<lambda>(k, s, e). k) bs = [0..<length rs]
            \<and> map (\<lambda>(k, s, e). e) bs = map (\<lambda>i. timestamps ! (i - 1)) rs
            \<and> start = timestamps ! (if rs = [] then 0 else last rs))
         \<and> calculate_block_boundaries [t0, t0 + d, t0 + 2 * d, t0 + 3 * d, t0 + 4 * d, t0 + 5 * d]
               [5, 8, 10, 2, 6, 9] =
             Inr [(0, t0, t0 + 2 * d), (1, t0 + 3 * d, t0 + 5 * d)]"
proof -
  have u: "[1..<6] = [1, 2, 3, 4, 5]"
    by (simp add: upt_rec)
  have b: "calculate_block_boundaries [t0, t0 + d, t0 + 2 * d, t0 + 3 * d, t0 + 4 * d, t0 + 5 * d]
               [5, 8, 10, 2, 6, 9] =
             Inr [(0, t0, t0 + 2 * d), (1, t0 + 3 * d, t0 + 5 * d)]"
    using assms(2) by (simp add: calculate_block_boundaries_def u is_reset_iff)
  have rs: "rs = reset_indices proofs_processed (length timestamps)"
    by (simp add: rs_def reset_indices_def)
  show ?thesis
    using boundaries_loop_full [OF assms(1)] b
    by (simp add: rs closed_windows_ends closed_windows_indices open_start_def)
qed

theorem boundary_detection_witness:
  "length [5, 8, 10, 2, 6, 9 :: int] = length [0, 1, 2, 3, 4, 5 :: int] \<and> (0 :: int) < 1
   \<and> boundaries_loop [0, 1, 2, 3, 4, 5] [5, 8, 10, 2, 6, 9] [1..<6] ([], 0) = Inr ([(0, 0, 2)], 3)
   \<and> calculate_block_boundaries [0, 1, 2, 3, 4, 5] [5, 8, 10, 2, 6, 9] = Inr [(0, 0, 2), (1, 3, 5)]"
  using boundary_detection [of "[5, 8, 10, 2, 6, 9]" "[0, 1, 2, 3, 4, 5]" 1 0]
  by (simp add: upt_rec is_reset_iff)

text \<open>
  C6, as stated, fails when the last reset falls on a sample that carries the timestamp
  of the last sample: the guard \<^verbatim>\<open>current_block_start != timestamps[-1]\<close> then adds no
  trailing window. With the counters 10, 2 the only window, hence the final one, ends
  at the first sample.
\<close>

theorem final_window_counterexample:
  "calculate_block_boundaries [0, 1000000] [10, 2] = Inr [(0, 0, 0)]
   \<and> last [0, 1000000 :: int] \<noteq> 0"
  by (simp add: calculate_block_boundaries_def is_reset_iff)

text \<open>
  C6, amended. For a non-empty sequence of samples, window \<open>k\<close> closed by the \<open>k\<close>-th
  reset starts at the previous reset (at the first sample for \<open>k = 0\<close>) and ends at the
  sample immediately before the reset. When the window opened last starts at a
  timestamp different from the last sample's, one more window follows, and it ends at
  the last sample of the file; otherwise the closed windows are the whole result.
\<close>

theorem window_ends:
  assumes "timestamps \<noteq> []" and "length proofs_processed = length timestamps"
  defines "rs \<equiv> [i \<leftarrow> [1..<length timestamps].
                    2 * proofs_processed ! i < proofs_processed ! (i - 1)
                    \<or> proofs_processed ! i = 0]"
  defines "open_at \<equiv> timestamps ! (if rs = [] then 0 else last rs)"
  shows "\<exists>ws. calculate_block_boundaries timestamps proofs_processed = Inr ws
           \<and> (\<forall>k < length rs.
                 ws ! k = (k, timestamps ! (if k = 0 then 0 else rs ! (k - 1)),
                           timestamps ! (rs ! k - 1)))
           \<and> (if open_at \<noteq> last timestamps
               then length ws = length rs + 1 \<and> last ws = (length rs, open_at, last timestamps)
               else length ws = length rs)"
proof -
  have rs: "rs = reset_indices proofs_processed (length timestamps)"
    by (simp add: rs_def reset_indices_def)
  have oa: "open_at = open_start timestamps rs"
    by (simp add: open_at_def open_start_def)
  have nth: "\<forall>k < length rs. (closed_windows timestamps rs @ xs) ! k =
          (k, timestamps ! (if k = 0 then 0 else rs ! (k - 1)), timestamps ! (rs ! k - 1))" for xs
    by (simp add: nth_append closed_windows_def)
  show ?thesis
    using assms(1) boundaries_loop_full [OF assms(2)] nth [of "[]"]
      nth [of "[(length rs, open_at, last timestamps)]"]
    by (auto simp: calculate_block_boundaries_def rs [symmetric] oa [symmetric])
qed

theorem window_ends_witness:
  "[0, 1000000, 2000000 :: int] \<noteq> [] \<and> length [10, 2, 3 :: int] = length [0, 1000000, 2000000 :: int]
   \<and> calculate_block_boundaries [0, 1000000, 2000000] [10, 2, 3]
       = Inr [(0, 0, 0), (1, 1000000, 2000000)]"
  using window_ends [of "[0, 1000000, 2000000]" "[10, 2, 3]"]
  by (simp add: calculate_block_boundaries_def upt_rec is_reset_iff)


section \<open>Correlating proof times with blocks\<close>

lemma window_iff:
  "0 \<le> total_seconds (p - t) \<and> total_seconds (p - t) \<le> 10 \<longleftrightarrow> t \<le> p \<and> p \<le> t + 10000000"
  by (auto simp: total_seconds_def divide_le_eq le_divide_eq)

lemma attach_total_time_fields [simp]:
  "timestamp (attach_total_time e ps) = timestamp e"
  "block_number (attach_total_time e ps) = block_number e"
  "block_hash (attach_total_time e ps) = block_hash e"
  "elapsed_time (attach_total_time e ps) = elapsed_time e"
  "root_elapsed (attach_total_time e ps) = root_elapsed e"
  by (induction e ps rule: attach_total_time.induct; simp add: Let_def)+

lemma attach_total_time_find:
  "total_time (attach_total_time e ps) =
     (case find (\<lambda>(p, s). timestamp e \<le> p \<and> p \<le> timestamp e + 10000000) ps of
        None \<Rightarrow> total_time e
      | Some (p, s) \<Rightarrow> Some s)"
  by (induction e ps rule: attach_total_time.induct) (auto simp: Let_def window_iff)

lemma find_sorted_least:
  "sorted (map fst ys) \<Longrightarrow> find P ys = Some y \<Longrightarrow> z \<in> set ys \<Longrightarrow> P z \<Longrightarrow> fst y \<le> fst z"
  by (induction ys) (auto split: if_splits)

lemma set_proof_times:
  "(p, s) \<in> set (proof_times content) \<longleftrightarrow> ProofsProcessed p s \<in> set content"
proof -
  have "proof_time_of x = Some (p, s) \<longleftrightarrow> x = ProofsProcessed p s" for x
    by (cases x) auto
  then show ?thesis
    by (force simp: proof_times_def List.map_filter_def)
qed

lemma sorted_proof_times: "sorted (map fst (proof_times content))"
  by (simp add: proof_times_def)

lemma set_fold_update:
  "set (fold (\<lambda>e. AList.update (f e) e) es acc) \<subseteq> set acc \<union> (\<lambda>e. (f e, e)) ` set es"
proof (induction es arbitrary: acc)
  case Nil
  then show ?case by simp
next
  case (Cons a es)
  have "set (AList.update (f a) a acc) \<subseteq> insert (f a, a) (set acc)"
    by (induction acc) auto
  with Cons [of "AList.update (f a) a acc"] show ?case by auto
qed

lemma set_by_timestamp_aux:
  "set (fold (\<lambda>(number, entries) block_metadata.
             fold (\<lambda>e. AList.update (timestamp e) e) entries block_metadata) blocks acc)
    \<subseteq> set acc \<union> (\<lambda>e. (timestamp e, e)) ` (\<Union>(number, entries) \<in> set blocks. set entries)"
proof (induction blocks arbitrary: acc)
  case Nil
  then show ?case by simp
next
  case (Cons b blocks)
  obtain number entries where b: "b = (number, entries)" by (cases b)
  show ?case
    using Cons [of "fold (\<lambda>e. AList.update (timestamp e) e) entries acc"]
      set_fold_update [of timestamp entries acc]
    by (auto simp: b)
qed

lemma set_by_timestamp:
  "(k, e) \<in> set (by_timestamp blocks) \<Longrightarrow>
     k = timestamp e \<and> (\<exists>number entries. (number, entries) \<in> set blocks \<and> e \<in> set entries)"
  using set_by_timestamp_aux [of blocks "[]"] by (fastforce simp: by_timestamp_def)


lemma set_update_cases:
  "(n, v) \<in> set (AList.update k w al) \<Longrightarrow> (n, v) = (k, w) \<or> (n, v) \<in> set al"
  by (induction al) (auto split: if_splits)

lemma all_entries_collect_block:
  assumes "all_entries (fresh_entry S) blocks" and "ev \<in> S"
  shows "all_entries (fresh_entry S) (collect_block ev blocks)"
proof (cases ev)
  case (BlockAdded ts number hash elapsed)
  let ?new = "\<lparr>timestamp = ts, block_hash = hash, elapsed_time = elapsed, block_number = number,
                root_elapsed = None, total_time = None\<rparr>"
  have new: "fresh_entry S number ?new"
    using assms(2) BlockAdded by (simp add: fresh_entry_def)
  have old: "\<forall>e \<in> set (the (map_of (if map_of blocks number = None
                 then AList.update number [] blocks else blocks) number)). fresh_entry S number e"
  proof (cases "map_of blocks number")
    case None
    then show ?thesis by (simp add: update_conv')
  next
    case (Some es)
    then have "(number, es) \<in> set blocks" by (rule map_of_SomeD)
    with assms(1) Some show ?thesis by (auto simp: all_entries_def)
  qed
  show ?thesis
    unfolding all_entries_def
  proof (intro ballI, clarify)
    fix n es e
    assume in_set: "(n, es) \<in> set (collect_block ev blocks)" and e: "e \<in> set es"
    from in_set [unfolded BlockAdded collect_block.simps Let_def]
    consider "n = number" "es = the (map_of (if map_of blocks number = None
                 then AList.update number [] blocks else blocks) number) @ [?new]"
      | "(n, es) \<in> set (if map_of blocks number = None
                 then AList.update number [] blocks else blocks)"
      using set_update_cases by fastforce
    then show "fresh_entry S n e"
    proof cases
      case 1
      with e old new show ?thesis by auto
    next
      case 2
      then have "(n, es) = (number, []) \<or> (n, es) \<in> set blocks"
        using set_update_cases [of n es number "[]" blocks] by (auto split: if_splits)
      with e assms(1) show ?thesis by (auto simp: all_entries_def)
    qed
  qed
qed (use assms(1) in simp_all)

lemma all_entries_collect_fold:
  "all_entries (fresh_entry S) blocks \<Longrightarrow> set content \<subseteq> S \<Longrightarrow>
     all_entries (fresh_entry S) (fold collect_block content blocks)"
  by (induction content arbitrary: blocks) (simp_all add: all_entries_collect_block)

lemma all_entries_collect_blocks:
  "all_entries (fresh_entry (set content)) (collect_blocks content)"
  unfolding collect_blocks_def
  by (rule all_entries_collect_fold) (simp_all add: all_entries_def)

lemma all_entries_add_root_elapsed:
  assumes "all_entries (fresh_entry S) blocks"
  shows "all_entries (fresh_entry S) (add_root_elapsed ev blocks)"
proof (cases ev)
  case (StateRootCalculated ts elapsed number hash)
  show ?thesis
  proof (cases "map_of blocks number")
    case None
    with assms StateRootCalculated show ?thesis by simp
  next
    case (Some entries)
    then have mem: "(number, entries) \<in> set blocks" by (rule map_of_SomeD)
    show ?thesis
    proof (cases "closest_entry ts entries")
      case None
      with assms StateRootCalculated Some show ?thesis by simp
    next
      case j: (Some j)
      let ?es = "entries[j := (entries ! j)\<lparr>root_elapsed := Some elapsed\<rparr>]"
      have upd: "\<forall>e \<in> set ?es. fresh_entry S number e"
      proof
        fix e assume "e \<in> set ?es"
        then have "e \<in> set entries \<or> (j < length entries \<and> e = (entries ! j)\<lparr>root_elapsed := Some elapsed\<rparr>)"
          using set_update_subset_insert [of entries j "(entries ! j)\<lparr>root_elapsed := Some elapsed\<rparr>"]
          by (cases "j < length entries") (auto simp: list_update_beyond)
        moreover have "\<forall>e \<in> set entries. fresh_entry S number e"
          using assms mem by (auto simp: all_entries_def)
        ultimately show "fresh_entry S number e"
          by (auto simp: fresh_entry_def)
      qed
      show ?thesis
        unfolding all_entries_def
      proof (intro ballI, clarify)
        fix n es e
        assume "(n, es) \<in> set (add_root_elapsed ev blocks)" and e: "e \<in> set es"
        then have "(n, es) = (number, ?es) \<or> (n, es) \<in> set blocks"
          using set_update_cases [of n es number ?es blocks]
          by (simp add: StateRootCalculated Some j)
        with e upd assms show "fresh_entry S n e"
          by (auto simp: all_entries_def)
      qed
    qed
  qed
qed (use assms in simp_all)

lemma all_entries_add_root_times:
  "all_entries (fresh_entry S) blocks \<Longrightarrow> all_entries (fresh_entry S) (add_root_times content blocks)"
  unfolding add_root_times_def
  by (induction content arbitrary: blocks) (simp_all add: all_entries_add_root_elapsed)

lemma extract_block_metadata_entry:
  assumes "(k, e) \<in> set (extract_block_metadata content)"
  shows "\<exists>e0. e = attach_total_time e0 (proof_times content) \<and> total_time e0 = None
            \<and> k = timestamp e0
            \<and> BlockAdded (timestamp e0) (block_number e0) (block_hash e0) (elapsed_time e0)
                 \<in> set content"
proof -
  let ?b2 = "add_root_times content (collect_blocks content)"
  from assms obtain number entries where k: "k = timestamp e"
    and mem: "(number, entries) \<in> set (add_proof_times (proof_times content) ?b2)"
    and e: "e \<in> set entries"
    unfolding extract_block_metadata_def by (blast dest: set_by_timestamp)
  from mem e obtain entries0 e0 where "(number, entries0) \<in> set ?b2" "e0 \<in> set entries0"
    and e0: "e = attach_total_time e0 (proof_times content)"
    by (auto simp: add_proof_times_def)
  moreover have "all_entries (fresh_entry (set content)) ?b2"
    by (intro all_entries_add_root_times all_entries_collect_blocks)
  ultimately have "fresh_entry (set content) number e0"
    by (auto simp: all_entries_def)
  with k e0 show ?thesis
    by (auto simp: fresh_entry_def)
qed


lemma total_time_extract:
  assumes "(k, e) \<in> set (extract_block_metadata content)"
  shows "total_time e =
           (case find (\<lambda>(p, s). timestamp e \<le> p \<and> p \<le> timestamp e + 10000000)
                   (proof_times content) of
              None \<Rightarrow> None
            | Some (p, s) \<Rightarrow> Some s)"
  using extract_block_metadata_entry [OF assms]
  by (auto simp: attach_total_time_find split: option.splits)

lemma extract_three_events:
  "extract_block_metadata
     [ProofsProcessed (T + 1000000) a, BlockAdded (T + 3000000) n h el,
      ProofsProcessed (T + 15000000) b] =
   [(T + 3000000, \<lparr>timestamp = T + 3000000, block_hash = h, elapsed_time = el,
       block_number = n, root_elapsed = None, total_time = None\<rparr>)]"
  by (simp add: extract_block_metadata_def collect_blocks_def add_root_times_def proof_times_def
      add_proof_times_def by_timestamp_def total_seconds_def)

lemma find_SomeD: "find P ys = Some y \<Longrightarrow> y \<in> set ys \<and> P y"
  by (induction ys) (auto split: if_splits)

lemma extract_shared_proof:
  "extract_block_metadata
     [BlockAdded 0 ''100'' ''0xab'' ''5ms'', BlockAdded 1000000 ''101'' ''0xac'' ''6ms'',
      ProofsProcessed 2000000 ''7ms''] =
   [(0, \<lparr>timestamp = 0, block_hash = ''0xab'', elapsed_time = ''5ms'',
        block_number = ''100'', root_elapsed = None, total_time = Some ''7ms''\<rparr>),
    (1000000, \<lparr>timestamp = 1000000, block_hash = ''0xac'', elapsed_time = ''6ms'',
        block_number = ''101'', root_elapsed = None, total_time = Some ''7ms''\<rparr>)]"
  by (simp add: extract_block_metadata_def collect_blocks_def add_root_times_def proof_times_def
      add_proof_times_def by_timestamp_def total_seconds_def)

text \<open>
  C1, as stated, fails: the Correlator searches from the \<^verbatim>\<open>Block added\<close> timestamp
  forwards (\<^verbatim>\<open>0 <= time_diff <= 10\<close>), so the proof summary logged two seconds before
  the block is not attached. With the events of the claim and no other, the record has
  no \<^verbatim>\<open>'total_time'\<close> at all.
\<close>

theorem proofs_before_block_counterexample:
  "extract_block_metadata
     [ProofsProcessed 1000000 ''12ms'', BlockAdded 3000000 ''100'' ''0xab'' ''5ms'',
      ProofsProcessed 15000000 ''9ms''] =
   [(3000000, \<lparr>timestamp = 3000000, block_hash = ''0xab'', elapsed_time = ''5ms'',
       block_number = ''100'', root_elapsed = None, total_time = None\<rparr>)]"
  using extract_three_events [of 0 "''12ms''" "''100''" "''0xab''" "''5ms''" "''9ms''"] by simp

text \<open>
  C1, amended. In a log whose proof summaries lie one second after \<open>T\<close> and fifteen
  seconds after \<open>T\<close>, a record of a block added three seconds after \<open>T\<close> reports no
  processing time: the earlier summary precedes the block and the later one lies outside
  the ten seconds that follow it. The log of exactly these three events yields the one
  record without processing time.
\<close>

theorem proofs_outside_window_ignored:
  assumes "(k, e) \<in> set (extract_block_metadata content)"
    and "timestamp e = T + 3000000"
    and "\<forall>p s. ProofsProcessed p s \<in> set content \<longrightarrow> p = T + 1000000 \<or> p = T + 15000000"
  shows "total_time e = None
         \<and> extract_block_metadata
             [ProofsProcessed (T + 1000000) a, BlockAdded (T + 3000000) n h el,
              ProofsProcessed (T + 15000000) b] =
           [(T + 3000000, \<lparr>timestamp = T + 3000000, block_hash = h, elapsed_time = el,
               block_number = n, root_elapsed = None, total_time = None\<rparr>)]"
proof -
  have "find (\<lambda>(p, s). timestamp e \<le> p \<and> p \<le> timestamp e + 10000000) (proof_times content) = None"
    using assms(2,3) by (auto simp: find_None_iff set_proof_times)
  with total_time_extract [OF assms(1)] extract_three_events show ?thesis
    by simp
qed

theorem proofs_outside_window_ignored_witness:
  "(3000000, \<lparr>timestamp = 3000000, block_hash = ''0xab'', elapsed_time = ''5ms'',
       block_number = ''100'', root_elapsed = None, total_time = None\<rparr>)
     \<in> set (extract_block_metadata
         [ProofsProcessed 1000000 ''12ms'', BlockAdded 3000000 ''100'' ''0xab'' ''5ms'',
          ProofsProcessed 15000000 ''9ms''])
   \<and> total_time \<lparr>timestamp = 3000000, block_hash = ''0xab'', elapsed_time = ''5ms'',
       block_number = ''100'', root_elapsed = None, total_time = None\<rparr> = None"
  using proofs_outside_window_ignored [of 3000000
      "\<lparr>timestamp = 3000000, block_hash = ''0xab'', elapsed_time = ''5ms'',
       block_number = ''100'', root_elapsed = None, total_time = None\<rparr>"
      "[ProofsProcessed 1000000 ''12ms'', BlockAdded 3000000 ''100'' ''0xab'' ''5ms'',
          ProofsProcessed 15000000 ''9ms'']" 0]
    extract_three_events [of 0 "''12ms''" "''100''" "''0xab''" "''5ms''" "''9ms''"]
  by simp


text \<open>
  C2, as stated, fails at the lower end of the window: a proof summary carrying the very
  timestamp of the \<^verbatim>\<open>Block added\<close> line is inside the window
  (\<^verbatim>\<open>0 <= time_diff\<close>), and being the earliest it is the one attached, not the
  earliest summary strictly after the block.
\<close>

theorem proof_at_block_time_counterexample:
  "extract_block_metadata
     [BlockAdded 0 ''100'' ''0xab'' ''5ms'', ProofsProcessed 0 ''7ms'',
      ProofsProcessed 1000000 ''8ms''] =
   [(0, \<lparr>timestamp = 0, block_hash = ''0xab'', elapsed_time = ''5ms'',
        block_number = ''100'', root_elapsed = None, total_time = Some ''7ms''\<rparr>)]"
  by (simp add: extract_block_metadata_def collect_blocks_def add_root_times_def proof_times_def
      add_proof_times_def by_timestamp_def total_seconds_def)

text \<open>
  C2, amended. Every record of the result is keyed by the timestamp of a
  \<^verbatim>\<open>Block added\<close> event. Its processing time is absent exactly when no proof summary
  lies at or after that timestamp and at most ten seconds after it; otherwise it is the
  total time of a proof summary in that window with the least timestamp. Records do not
  exclude each other: one proof summary two seconds after a first block and one second
  after a second block is attached to both.
\<close>

theorem earliest_proof_in_window:
  assumes "(k, e) \<in> set (extract_block_metadata content)"
  shows "k = timestamp e
         \<and> (\<exists>number hash elapsed. BlockAdded k number hash elapsed \<in> set content)
         \<and> (case total_time e of
               None \<Rightarrow>
                 \<forall>p s. ProofsProcessed p s \<in> set content \<longrightarrow> \<not> (k \<le> p \<and> p \<le> k + 10000000)
             | Some s \<Rightarrow>
                 \<exists>p. ProofsProcessed p s \<in> set content \<and> k \<le> p \<and> p \<le> k + 10000000
                   \<and> (\<forall>p' s'. ProofsProcessed p' s' \<in> set content
                          \<and> k \<le> p' \<and> p' \<le> k + 10000000 \<longrightarrow> p \<le> p'))
         \<and> extract_block_metadata
              [BlockAdded 0 ''100'' ''0xab'' ''5ms'', BlockAdded 1000000 ''101'' ''0xac'' ''6ms'',
               ProofsProcessed 2000000 ''7ms''] =
            [(0, \<lparr>timestamp = 0, block_hash = ''0xab'', elapsed_time = ''5ms'',
                 block_number = ''100'', root_elapsed = None, total_time = Some ''7ms''\<rparr>),
             (1000000, \<lparr>timestamp = 1000000, block_hash = ''0xac'', elapsed_time = ''6ms'',
                 block_number = ''101'', root_elapsed = None, total_time = Some ''7ms''\<rparr>)]"
proof -
  let ?P = "\<lambda>(p, s). timestamp e \<le> p \<and> p \<le> timestamp e + (10000000::int)"
  from extract_block_metadata_entry [OF assms]
  have k: "k = timestamp e"
    and ev: "\<exists>number hash elapsed. BlockAdded k number hash elapsed \<in> set content"
    by auto
  have tt: "total_time e = (case find ?P (proof_times content) of
              None \<Rightarrow> None | Some (p, s) \<Rightarrow> Some s)"
    by (rule total_time_extract [OF assms])
  have w: "case total_time e of
               None \<Rightarrow>
                 \<forall>p s. ProofsProcessed p s \<in> set content \<longrightarrow> \<not> (k \<le> p \<and> p \<le> k + 10000000)
             | Some s \<Rightarrow>
                 \<exists>p. ProofsProcessed p s \<in> set content \<and> k \<le> p \<and> p \<le> k + 10000000
                   \<and> (\<forall>p' s'. ProofsProcessed p' s' \<in> set content
                          \<and> k \<le> p' \<and> p' \<le> k + 10000000 \<longrightarrow> p \<le> p')"
  proof (cases "find ?P (proof_times content)")
    case None
    with tt have "total_time e = None" by simp
    moreover from None have "\<forall>p s. ProofsProcessed p s \<in> set content \<longrightarrow>
        \<not> (k \<le> p \<and> p \<le> k + 10000000)"
      by (auto simp: find_None_iff set_proof_times k)
    ultimately show ?thesis by simp
  next
    case (Some y)
    obtain p s where y: "y = (p, s)" by (cases y)
    from find_SomeD [OF Some] have py: "ProofsProcessed p s \<in> set content" "k \<le> p" "p \<le> k + 10000000"
      by (auto simp: y set_proof_times k)
    have least: "p \<le> p'" if "ProofsProcessed p' s' \<in> set content" "k \<le> p'" "p' \<le> k + 10000000"
      for p' s'
      using find_sorted_least [OF sorted_proof_times Some, of "(p', s')"] that
      by (simp add: y set_proof_times k)
    from tt Some y have "total_time e = Some s" by simp
    with py least show ?thesis by auto
  qed
  from k ev w extract_shared_proof show ?thesis by simp
qed

theorem earliest_proof_in_window_witness:
  "(0, \<lparr>timestamp = 0, block_hash = ''0xab'', elapsed_time = ''5ms'',
        block_number = ''100'', root_elapsed = None, total_time = Some ''7ms''\<rparr>)
     \<in> set (extract_block_metadata
         [BlockAdded 0 ''100'' ''0xab'' ''5ms'', BlockAdded 1000000 ''101'' ''0xac'' ''6ms'',
          ProofsProcessed 2000000 ''7ms''])
   \<and> (\<exists>p. ProofsProcessed p ''7ms'' \<in> set
         [BlockAdded 0 ''100'' ''0xab'' ''5ms'', BlockAdded 1000000 ''101'' ''0xac'' ''6ms'',
          ProofsProcessed 2000000 ''7ms''] \<and> 0 \<le> p \<and> p \<le> 10000000)"
  using earliest_proof_in_window [of 0
      "\<lparr>timestamp = 0, block_hash = ''0xab'', elapsed_time = ''5ms'',
        block_number = ''100'', root_elapsed = None, total_time = Some ''7ms''\<rparr>"
      "[BlockAdded 0 ''100'' ''0xab'' ''5ms'', BlockAdded 1000000 ''101'' ''0xac'' ''6ms'',
          ProofsProcessed 2000000 ''7ms'']"]
    extract_shared_proof
  by simp

end
